theory Spec2Isabelle
  imports Complex_Main "HOL-Library.Log_Nat" "HOL-Library.Sublist"
begin

section \<open>Python values\<close>

text \<open>
  The exceptions the modelled functions can raise. \<open>ValueError\<close> carries its message.
\<close>

datatype py_error = ZeroDivisionError | OverflowError | ValueError string

definition and_then :: "'e + 'a \<Rightarrow> ('a \<Rightarrow> 'e + 'b) \<Rightarrow> 'e + 'b" where
  "and_then m f = (case m of Inl e \<Rightarrow> Inl e | Inr x \<Rightarrow> f x)"

subsection \<open>Floats\<close>

text \<open>
  A Python float is an IEEE 754 binary64 number. A finite one is modelled by its exact
  value, a rational. \<open>fl\<close> rounds a rational to the nearest binary64 value, ties to the
  even significand: the significand has 53 bits, the least normal exponent is \<open>-1022\<close>,
  and below it the spacing stays \<open>2 powi (-1074)\<close> (subnormal numbers).
  \<open>expo x\<close> is the binary exponent of a positive \<open>x\<close>, the \<open>e\<close> with
  \<open>2 powi e \<le> x < 2 powi (e + 1)\<close>.
\<close>

definition expo :: "rat \<Rightarrow> int" where
  "expo x = (case quotient_of x of (p, q) \<Rightarrow>
     (let d = bitlen p - bitlen q in if 2 powi d \<le> x then d else d - 1))"

definition rne :: "rat \<Rightarrow> int" where
  "rne m = (let f = \<lfloor>m\<rfloor>; r = m - of_int f in
     if r < 1 / 2 then f else if 1 / 2 < r then f + 1 else if even f then f else f + 1)"

definition round_mag :: "rat \<Rightarrow> rat" where
  "round_mag x =
     (let e = max (expo x) (- 1022); q = 2 powi (e - 52) in of_int (rne (x / q)) * q)"

definition fl :: "rat \<Rightarrow> rat" where
  "fl x = (if x = 0 then 0 else if 0 < x then round_mag x else - round_mag (- x))"

definition DBL_MAX :: rat where
  "DBL_MAX = (2 ^ 53 - 1) * 2 ^ 971"

text \<open>
  \<open>a / b\<close> on two ints is the correctly rounded quotient; it raises on a zero divisor and
  when the quotient is too large for a float.
\<close>

definition truediv :: "int \<Rightarrow> int \<Rightarrow> py_error + rat" where
  "truediv a b =
     (if b = 0 then Inl ZeroDivisionError
      else (let r = fl (of_int a / of_int b) in
        if DBL_MAX < \<bar>r\<bar> then Inl OverflowError else Inr r))"

text \<open>The conversion of an int operand to float, as arithmetic between a float and an int does.\<close>

definition float_of_int :: "int \<Rightarrow> py_error + rat" where
  "float_of_int c = (let r = fl (of_int c) in if DBL_MAX < \<bar>r\<bar> then Inl OverflowError else Inr r)"

text \<open>
  \<open>x * c\<close> for a float \<open>x\<close> and an int \<open>c\<close>. A product beyond the largest float is the
  float infinity in Python; every product of the modelled code is the argument of
  \<open>int(...)\<close>, which raises \<open>OverflowError\<close> on infinity, so the overflow is reported here.
\<close>

definition fmul :: "rat \<Rightarrow> int \<Rightarrow> py_error + rat" where
  "fmul x c =
     and_then (float_of_int c) (\<lambda>y.
       let p = fl (x * y) in if DBL_MAX < \<bar>p\<bar> then Inl OverflowError else Inr p)"

text \<open>\<open>int(x)\<close> on a finite float truncates towards zero.\<close>

definition py_int :: "rat \<Rightarrow> int" where
  "py_int x = (if 0 \<le> x then \<lfloor>x\<rfloor> else \<lceil>x\<rceil>)"

subsection \<open>Strings\<close>

text \<open>
  A Python \<open>str\<close> is a sequence of code points. The model covers the strings whose code
  points are below 256, one \<open>char\<close> each, so that \<open>length\<close> is Python's \<open>len\<close>.
  On these, \<open>str.lower\<close> moves \<open>A\<close>-\<open>Z\<close> and the code points 192-222 except 215 up by 32, and
  \<open>str.split()\<close> separates at the code points 9-13, 28-32, 133 and 160.
\<close>

definition lower_char :: "char \<Rightarrow> char" where
  "lower_char c =
     (let n = (of_char c :: nat) in
      if (65 \<le> n \<and> n \<le> 90) \<or> (192 \<le> n \<and> n \<le> 222 \<and> n \<noteq> 215) then char_of (n + 32) else c)"

definition lower :: "string \<Rightarrow> string" where
  "lower s = map lower_char s"

definition is_space :: "char \<Rightarrow> bool" where
  "is_space c =
     (let n = (of_char c :: nat) in
      (9 \<le> n \<and> n \<le> 13) \<or> (28 \<le> n \<and> n \<le> 32) \<or> n = 133 \<or> n = 160)"

text \<open>\<open>s.split()\<close>: the maximal runs of non-whitespace, \<open>cur\<close> being the run read so far.\<close>

fun split_from :: "string \<Rightarrow> string \<Rightarrow> string list" where
  "split_from cur [] = (if cur = [] then [] else [cur])"
| "split_from cur (c # cs) =
     (if is_space c then (if cur = [] then split_from [] cs else cur # split_from [] cs)
      else split_from (cur @ [c]) cs)"

definition split :: "string \<Rightarrow> string list" where
  "split s = split_from [] s"

text \<open>\<open>needle in hay\<close> on strings.\<close>

fun substring_in :: "string \<Rightarrow> string \<Rightarrow> bool" where
  "substring_in needle [] = (needle = [])"
| "substring_in needle (c # cs) = (prefix needle (c # cs) \<or> substring_in needle cs)"

text \<open>\<open>sep.join(xs)\<close>.\<close>

fun join :: "string \<Rightarrow> string list \<Rightarrow> string" where
  "join sep [] = []"
| "join sep [x] = x"
| "join sep (x # y # ys) = x @ sep @ join sep (y # ys)"

text \<open>The decimal digits of a number, as an f-string prints an int.\<close>

fun digits :: "nat \<Rightarrow> string" where
  "digits n =
     (if n < 10 then [char_of (48 + n)] else digits (n div 10) @ [char_of (48 + n mod 10)])"

declare digits.simps [simp del]

definition str_int :: "int \<Rightarrow> string" where
  "str_int i = (if i < 0 then CHR ''-'' # digits (nat (- i)) else digits (nat i))"

text \<open>
  \<open>len(re.findall(r"^## ", body, re.MULTILINE))\<close>: the number of lines that start with
  \<open>## \<close>, a line starting at the beginning of the string and after each line feed. The
  flag says whether the position read is the start of a line.
\<close>

fun count_h2 :: "bool \<Rightarrow> string \<Rightarrow> nat" where
  "count_h2 bol [] = 0"
| "count_h2 bol (c # cs) =
     (if bol \<and> prefix ''## '' (c # cs) then 1 else 0) + count_h2 (c = CHR 0x0A) cs"

section \<open>SEO validation (rewriter/seo.py)\<close>

record SEOResult =
  passed :: bool
  score :: int
  issues :: "string list"

definition TITLE_MIN_LEN :: int where "TITLE_MIN_LEN = 30"
definition TITLE_MAX_LEN :: int where "TITLE_MAX_LEN = 70"
definition META_MIN_LEN :: int where "META_MIN_LEN = 120"
definition META_MAX_LEN :: int where "META_MAX_LEN = 170"
definition MIN_H2_COUNT :: int where "MIN_H2_COUNT = 2"
definition MIN_WORD_COUNT :: int where "MIN_WORD_COUNT = 500"
definition PASS_THRESHOLD :: int where "PASS_THRESHOLD = 70"

text \<open>
  The local variables of \<open>SEOValidator.validate\<close> that the checks update: the list
  \<open>issues\<close> and the counters \<open>total_points\<close> and \<open>max_points\<close>.
\<close>

record locals =
  l_issues :: "string list"
  total_points :: int
  max_points :: int

definition init :: locals where
  "init = \<lparr>l_issues = [], total_points = 0, max_points = 0\<rparr>"

definition append_issue :: "string \<Rightarrow> locals \<Rightarrow> locals" where
  "append_issue msg st = st\<lparr>l_issues := l_issues st @ [msg]\<rparr>"

definition add_points :: "int \<Rightarrow> locals \<Rightarrow> locals" where
  "add_points n st = st\<lparr>total_points := total_points st + n\<rparr>"

definition add_max :: "int \<Rightarrow> locals \<Rightarrow> locals" where
  "add_max n st = st\<lparr>max_points := max_points st + n\<rparr>"

text \<open>Title length.\<close>

definition check_title :: "string \<Rightarrow> locals \<Rightarrow> locals" where
  "check_title title st0 =
     (let st = add_max 20 st0; title_len = int (length title) in
      if TITLE_MIN_LEN \<le> title_len \<and> title_len \<le> TITLE_MAX_LEN then add_points 20 st
      else
        (let st = append_issue
               (''Title length is '' @ str_int title_len @ '' chars (target: ''
                 @ str_int TITLE_MIN_LEN @ ''-'' @ str_int TITLE_MAX_LEN @ '')'') st
         in if 0 < title_len then add_points 5 st else st))"

text \<open>Meta description length.\<close>

definition check_meta :: "string \<Rightarrow> locals \<Rightarrow> locals" where
  "check_meta meta_description st0 =
     (let st = add_max 20 st0; meta_len = int (length meta_description) in
      if META_MIN_LEN \<le> meta_len \<and> meta_len \<le> META_MAX_LEN then add_points 20 st
      else
        (let st = append_issue
               (''Meta description length is '' @ str_int meta_len @ '' chars (target: ''
                 @ str_int META_MIN_LEN @ ''-'' @ str_int META_MAX_LEN @ '')'') st
         in if 0 < meta_len then add_points 5 st else st))"

text \<open>H2 headings.\<close>

definition check_h2 :: "string \<Rightarrow> locals \<Rightarrow> locals" where
  "check_h2 body st0 =
     (let st = add_max 20 st0; h2_count = int (count_h2 True body) in
      if MIN_H2_COUNT \<le> h2_count then add_points 20 st
      else
        (let st = append_issue
               (''Found '' @ str_int h2_count @ '' H2 headings (minimum: ''
                 @ str_int MIN_H2_COUNT @ '')'') st
         in add_points (min (h2_count * 10) 15) st))"

text \<open>Word count. The partial credit is \<open>min(int(word_count / 500 * 15), 15)\<close>.\<close>

definition check_word_count :: "string \<Rightarrow> locals \<Rightarrow> py_error + locals" where
  "check_word_count body st0 =
     (let st = add_max 20 st0; word_count = int (length (split body)) in
      if MIN_WORD_COUNT \<le> word_count then Inr (add_points 20 st)
      else
        (let st = append_issue
               (''Word count is '' @ str_int word_count @ '' (minimum: ''
                 @ str_int MIN_WORD_COUNT @ '')'') st
         in and_then (truediv word_count MIN_WORD_COUNT) (\<lambda>q.
            and_then (fmul q 15) (\<lambda>p.
            Inr (add_points (min (py_int p) 15) st)))))"

text \<open>
  Keywords. The argument is \<open>None\<close> or a list; \<open>if keywords:\<close> holds for a non-empty
  list only. The partial credit is \<open>int(found / len(keywords) * 10)\<close>.
\<close>

definition check_keywords :: "string list option \<Rightarrow> string \<Rightarrow> locals \<Rightarrow> py_error + locals" where
  "check_keywords keywords body st0 =
     (let st = add_max 10 st0 in
      case keywords of
        None \<Rightarrow> Inr (add_points 10 st)
      | Some [] \<Rightarrow> Inr (add_points 10 st)
      | Some kws \<Rightarrow>
          (let body_lower = lower body;
               found = int (length (filter (\<lambda>kw. substring_in (lower kw) body_lower) kws))
           in if found = int (length kws) then Inr (add_points 10 st)
              else if 0 < found then
                and_then (truediv found (int (length kws))) (\<lambda>q.
                and_then (fmul q 10) (\<lambda>p.
                  (let st = add_points (py_int p) st;
                       missing = filter (\<lambda>kw. \<not> substring_in (lower kw) body_lower) kws
                   in Inr (append_issue (''Missing keywords: '' @ join '', '' missing) st))))
              else Inr (append_issue ''No target keywords found in body'' st)))"

text \<open>Internal link placeholder.\<close>

definition check_link :: "string \<Rightarrow> locals \<Rightarrow> locals" where
  "check_link body st0 =
     (let st = add_max 10 st0 in
      if substring_in ''{{novig_internal_link}}'' body then add_points 10 st
      else append_issue ''Missing {{novig_internal_link}} placeholder'' st)"

text \<open>The six checks in the order of the source, from the initial values of the locals.\<close>

definition run_checks ::
  "string \<Rightarrow> string \<Rightarrow> string \<Rightarrow> string list option \<Rightarrow> py_error + locals" where
  "run_checks title meta_description body keywords =
     and_then (check_word_count body (check_h2 body (check_meta meta_description (check_title title init))))
       (\<lambda>st. and_then (check_keywords keywords body st)
       (\<lambda>st. Inr (check_link body st)))"

text \<open>\<open>int(total_points / max_points * 100) if max_points > 0 else 0\<close>.\<close>

definition final_score :: "locals \<Rightarrow> py_error + int" where
  "final_score st =
     (if 0 < max_points st then
        and_then (truediv (total_points st) (max_points st)) (\<lambda>q.
        and_then (fmul q 100) (\<lambda>p. Inr (py_int p)))
      else Inr 0)"

definition validate ::
  "string \<Rightarrow> string \<Rightarrow> string \<Rightarrow> string list option \<Rightarrow> py_error + SEOResult" where
  "validate title meta_description body keywords =
     and_then (run_checks title meta_description body keywords) (\<lambda>st.
     and_then (final_score st) (\<lambda>sc.
       Inr \<lparr>passed = (PASS_THRESHOLD \<le> sc), score = sc, issues = l_issues st\<rparr>))"

text \<open>
  For the proofs: the value of \<open>int(a / b * c)\<close> when nothing raises, the number of
  keywords found in the body, the keyword argument as a list, and the locals after a block
  that adds the values of \<open>d\<close> to those of \<open>st\<close>.
\<close>

definition int_ratio_times :: "int \<Rightarrow> int \<Rightarrow> int \<Rightarrow> int" where
  "int_ratio_times a b c = py_int (fl (fl (of_int a / of_int b) * of_int c))"

definition found_keywords :: "string list \<Rightarrow> string \<Rightarrow> int" where
  "found_keywords kws body =
     int (length (filter (\<lambda>kw. substring_in (lower kw) (lower body)) kws))"

definition keyword_list :: "string list option \<Rightarrow> string list" where
  "keyword_list keywords = (case keywords of None \<Rightarrow> [] | Some kws \<Rightarrow> kws)"

definition combine :: "locals \<Rightarrow> locals \<Rightarrow> locals" where
  "combine st d =
     \<lparr>l_issues = l_issues st @ l_issues d, total_points = total_points st + total_points d,
      max_points = max_points st + max_points d\<rparr>"

section \<open>Deduplication (pipeline/processor.py)\<close>

text \<open>
  An article is a dict from field names to strings; \<open>article.get(key, "")\<close> reads a field,
  an absent one as the empty string.
\<close>

type_synonym article = "string \<rightharpoonup> string"

definition get :: "article \<Rightarrow> string \<Rightarrow> string" where
  "get article key = (case article key of None \<Rightarrow> [] | Some v \<Rightarrow> v)"

text \<open>
  \<open>DEDUP_THRESHOLD = 0.85\<close>: the float literal is the binary64 number nearest to 85/100.
\<close>

definition DEDUP_THRESHOLD :: rat where
  "DEDUP_THRESHOLD = fl (85 / 100)"

text \<open>
  \<open>SequenceMatcher(None, a, b).ratio()\<close> is the standard library's: it is the parameter
  \<open>ratio\<close>, giving the value of the float returned.
\<close>

definition title_similarity :: "(string \<Rightarrow> string \<Rightarrow> rat) \<Rightarrow> string \<Rightarrow> string \<Rightarrow> rat" where
  "title_similarity ratio a b = ratio (lower a) (lower b)"

fun is_duplicate :: "(string \<Rightarrow> string \<Rightarrow> rat) \<Rightarrow> article \<Rightarrow> article list \<Rightarrow> bool" where
  "is_duplicate ratio article [] = False"
| "is_duplicate ratio article (prev # seen) =
     (let url = get article ''url''; title = get article ''title'' in
      if url \<noteq> [] \<and> url = get prev ''url'' then True
      else
        (let prev_title = get prev ''title'' in
         if title \<noteq> [] \<and> prev_title \<noteq> []
            \<and> DEDUP_THRESHOLD \<le> title_similarity ratio title prev_title
         then True
         else is_duplicate ratio article seen))"

text \<open>The loop of \<open>deduplicate\<close> over the articles, \<open>unique\<close> being the list built so far.\<close>

fun deduplicate_loop ::
  "(string \<Rightarrow> string \<Rightarrow> rat) \<Rightarrow> article list \<Rightarrow> article list \<Rightarrow> article list" where
  "deduplicate_loop ratio [] unique = unique"
| "deduplicate_loop ratio (article # articles) unique =
     (if \<not> is_duplicate ratio article unique
      then deduplicate_loop ratio articles (unique @ [article])
      else deduplicate_loop ratio articles unique)"

definition deduplicate :: "(string \<Rightarrow> string \<Rightarrow> rat) \<Rightarrow> article list \<Rightarrow> article list" where
  "deduplicate ratio articles = deduplicate_loop ratio articles []"

text \<open>
  The duplicate relation in the words of the specification: the candidate's url is
  non-empty and equals the accepted record's url, or both titles are non-empty and their
  case-folded similarity ratio reaches the threshold.
\<close>

definition spec_duplicate_of ::
  "(string \<Rightarrow> string \<Rightarrow> rat) \<Rightarrow> article \<Rightarrow> article \<Rightarrow> bool" where
  "spec_duplicate_of ratio candidate accepted =
     ((get candidate ''url'' \<noteq> [] \<and> get candidate ''url'' = get accepted ''url'')
      \<or> (get candidate ''title'' \<noteq> [] \<and> get accepted ''title'' \<noteq> []
          \<and> DEDUP_THRESHOLD \<le> ratio (lower (get candidate ''title'')) (lower (get accepted ''title''))))"

text \<open>
  A list in which no record is a duplicate of the records before it: what \<open>deduplicate\<close>
  builds.
\<close>

definition no_duplicates :: "(string \<Rightarrow> string \<Rightarrow> rat) \<Rightarrow> article list \<Rightarrow> bool" where
  "no_duplicates ratio u = (\<forall>n < length u. \<not> is_duplicate ratio (u ! n) (take n u))"

section \<open>Prompt templates (rewriter/templates.py)\<close>

text \<open>
  The four module-level template strings, which differ pairwise, are named rather than
  spelled out.
\<close>

datatype template =
  BEST_BETS_TEMPLATE | PLAYER_PROPS_TEMPLATE | ODDS_ANALYSIS_TEMPLATE | PREDICTIONS_TEMPLATE

definition CONTENT_TYPES :: "string list" where
  "CONTENT_TYPES = [''best_bets'', ''player_props'', ''odds_analysis'', ''predictions'']"

definition TEMPLATES :: "string \<rightharpoonup> template" where
  "TEMPLATES =
     [''best_bets'' \<mapsto> BEST_BETS_TEMPLATE,
      ''player_props'' \<mapsto> PLAYER_PROPS_TEMPLATE,
      ''odds_analysis'' \<mapsto> ODDS_ANALYSIS_TEMPLATE,
      ''predictions'' \<mapsto> PREDICTIONS_TEMPLATE]"

definition unknown_content_type :: "string \<Rightarrow> py_error" where
  "unknown_content_type content_type =
     ValueError (''Unknown content type '' @ [CHR 39] @ content_type @ [CHR 39]
       @ ''. Must be one of: '' @ join '', '' CONTENT_TYPES)"

definition get_template :: "string \<Rightarrow> py_error + template" where
  "get_template content_type =
     (case TEMPLATES content_type of
        None \<Rightarrow> Inl (unknown_content_type content_type)
      | Some t \<Rightarrow> Inr t)"

section \<open>Sequencing\<close>

lemma and_then_Inr [simp]: "and_then (Inr x) f = f x"
  by (simp add: and_then_def)

lemma and_then_Inl [simp]: "and_then (Inl e) f = Inl e"
  by (simp add: and_then_def)

section \<open>Properties of the float model\<close>

lemma pow2_int_bounds:
  fixes p :: int
  assumes "0 < p"
  shows "(2::rat) powi (bitlen p - 1) \<le> of_int p" "of_int p < (2::rat) powi (bitlen p)"
proof -
  from bitlen_bounds[OF assms] have a: "2 ^ nat (bitlen p - 1) \<le> p" and b: "p < 2 ^ nat (bitlen p)"
    by auto
  have ge1: "1 \<le> bitlen p" using assms by (auto simp: bitlen_alt_def)
  have "(2::rat) powi (bitlen p - 1) = 2 ^ nat (bitlen p - 1)"
    using ge1 by (simp add: power_int_nonneg_exp)
  also have "\<dots> = of_int (2 ^ nat (bitlen p - 1))" by simp
  also have "\<dots> \<le> of_int p" using a by (simp only: of_int_le_iff)
  finally show "(2::rat) powi (bitlen p - 1) \<le> of_int p" .
  have "of_int p < (of_int (2 ^ nat (bitlen p)) :: rat)" using b by (simp only: of_int_less_iff)
  also have "\<dots> = 2 powi (bitlen p)" using ge1 by (simp add: power_int_nonneg_exp)
  finally show "of_int p < (2::rat) powi (bitlen p)" .
qed

lemma expo_bounds:
  assumes "0 < x"
  shows "2 powi (expo x) \<le> x" "x < 2 powi (expo x + 1)"
proof -
  obtain p q where pq: "quotient_of x = (p, q)" by force
  have q: "0 < q" using quotient_of_denom_pos[OF pq] .
  have x: "x = of_int p / of_int q" using quotient_of_div[OF pq] .
  have p: "0 < p" using assms q x by (simp add: zero_less_divide_iff)
  let ?d = "bitlen p - bitlen q"
  have e: "expo x = (if 2 powi ?d \<le> x then ?d else ?d - 1)"
    by (simp add: expo_def pq Let_def)
  have qpos: "(0::rat) < of_int q" using q by simp
  have lo: "(2::rat) powi (?d - 1) \<le> x"
  proof -
    have "(2::rat) powi (?d - 1) * of_int q \<le> 2 powi (?d - 1) * 2 powi (bitlen q)"
      using pow2_int_bounds(2)[OF q] by (intro mult_left_mono) auto
    also have "\<dots> = 2 powi (bitlen p - 1)"
      by (simp add: power_int_add[symmetric])
    also have "\<dots> \<le> of_int p" using pow2_int_bounds(1)[OF p] .
    finally show ?thesis using qpos by (simp add: x pos_le_divide_eq)
  qed
  have hi: "x < (2::rat) powi (?d + 1)"
  proof -
    have "of_int p < (2::rat) powi (bitlen p)" using pow2_int_bounds(2)[OF p] .
    also have "\<dots> = 2 powi (?d + 1) * 2 powi (bitlen q - 1)"
      by (simp add: power_int_add[symmetric])
    also have "\<dots> \<le> 2 powi (?d + 1) * of_int q"
      using pow2_int_bounds(1)[OF q] by (intro mult_left_mono) auto
    finally show ?thesis using qpos by (simp add: x pos_divide_less_eq)
  qed
  show "2 powi (expo x) \<le> x" using lo by (simp add: e)
  show "x < 2 powi (expo x + 1)" using hi by (auto simp add: e not_le)
qed

lemma expo_mono:
  assumes "0 < x" "x \<le> y"
  shows "expo x \<le> expo y"
proof (rule ccontr)
  assume "\<not> expo x \<le> expo y"
  then have "expo y + 1 \<le> expo x" by simp
  then have "(2::rat) powi (expo y + 1) \<le> 2 powi (expo x)"
    by (intro power_int_increasing) auto
  moreover have "y < 2 powi (expo y + 1)" using expo_bounds(2)[of y] assms by simp
  moreover have "2 powi (expo x) \<le> x" using expo_bounds(1)[OF assms(1)] .
  ultimately show False using assms(2) by linarith
qed

lemma rne_of_int: "rne (of_int k) = k"
  by (simp add: rne_def)

lemma rne_bounds: "of_int (rne m) \<le> m + 1 / 2" "m - 1 / 2 \<le> of_int (rne m)"
  unfolding rne_def Let_def by (auto; linarith)+

lemma pow2_add: "(2::rat) powi a * 2 powi b = 2 powi (a + b)"
  by (simp add: power_int_add)

lemma rne_floor: "\<lfloor>m\<rfloor> \<le> rne m" "rne m \<le> \<lfloor>m\<rfloor> + 1"
  by (simp_all add: rne_def Let_def)

lemma rne_mono:
  assumes "a \<le> b"
  shows "rne a \<le> rne b"
proof (cases "\<lfloor>a\<rfloor> = \<lfloor>b\<rfloor>")
  case True
  have "a - of_int \<lfloor>b\<rfloor> \<le> b - of_int \<lfloor>b\<rfloor>" using assms by simp
  then show ?thesis unfolding rne_def Let_def True by auto
next
  case False
  have "\<lfloor>a\<rfloor> \<le> \<lfloor>b\<rfloor>" using assms by (rule floor_mono)
  with False have "\<lfloor>a\<rfloor> + 1 \<le> \<lfloor>b\<rfloor>" by simp
  then show ?thesis using rne_floor(2)[of a] rne_floor(1)[of b] by linarith
qed

lemma round_mag_mono:
  assumes "0 < x" "x \<le> y"
  shows "round_mag x \<le> round_mag y"
proof -
  let ?ex = "max (expo x) (- 1022)" and ?ey = "max (expo y) (- 1022)"
  let ?qx = "(2::rat) powi (?ex - 52)" and ?qy = "(2::rat) powi (?ey - 52)"
  have y: "0 < y" using assms by simp
  have rx: "round_mag x = of_int (rne (x / ?qx)) * ?qx" by (simp add: round_mag_def Let_def)
  have ry: "round_mag y = of_int (rne (y / ?qy)) * ?qy" by (simp add: round_mag_def Let_def)
  have le: "?ex \<le> ?ey" using expo_mono[OF assms] by simp
  have qx: "0 < ?qx" and qy: "0 < ?qy" by simp_all
  show ?thesis
  proof (cases "?ex = ?ey")
    case True
    have "x / ?qx \<le> y / ?qx" using assms qx by (simp add: divide_right_mono)
    then have "rne (x / ?qx) \<le> rne (y / ?qx)" by (rule rne_mono)
    then have "(of_int (rne (x / ?qx)) :: rat) \<le> of_int (rne (y / ?qx))" by simp
    then have "of_int (rne (x / ?qx)) * ?qx \<le> of_int (rne (y / ?qx)) * ?qx"
      using qx by (simp only: mult_le_cancel_right_pos)
    then show ?thesis unfolding rx ry True .
  next
    case False
    with le have lt: "?ex + 1 \<le> ?ey" by simp
    then have ey: "?ey = expo y" by (simp add: max_def split: if_splits)
    have "x < 2 powi (expo x + 1)" using expo_bounds(2)[OF assms(1)] .
    also have "\<dots> \<le> 2 powi (?ex + 1)" by (intro power_int_increasing) auto
    finally have "x < 2 powi (?ex + 1)" .
    then have "x / ?qx < 2 powi (?ex + 1) / ?qx" using qx by (simp add: divide_strict_right_mono)
    also have "2 powi (?ex + 1) / ?qx = (2::rat) powi 53"
      by (simp add: power_int_diff[symmetric])
    finally have "x / ?qx \<le> of_int (2 ^ 53)" by simp
    then have "rne (x / ?qx) \<le> rne (of_int (2 ^ 53))" by (rule rne_mono)
    then have "rne (x / ?qx) \<le> 2 ^ 53" by (simp only: rne_of_int)
    then have "(of_int (rne (x / ?qx)) :: rat) \<le> of_int (2 ^ 53)" by (simp only: of_int_le_iff)
    then have "of_int (rne (x / ?qx)) * ?qx \<le> of_int (2 ^ 53) * ?qx"
      using qx by (simp only: mult_le_cancel_right_pos)
    also have "of_int (2 ^ 53) * ?qx = 2 powi (?ex + 1)"
      using pow2_add[of 53 "?ex - 52"] by (simp add: add.commute)
    also have "\<dots> \<le> 2 powi ?ey" using lt by (intro power_int_increasing) auto
    finally have up: "round_mag x \<le> 2 powi ?ey" unfolding rx .
    have "2 powi ?ey \<le> y" using expo_bounds(1)[OF y] ey by simp
    then have "2 powi ?ey / ?qy \<le> y / ?qy" using qy by (simp add: divide_right_mono)
    moreover have "2 powi ?ey / ?qy = (2::rat) powi 52"
      by (simp add: power_int_diff[symmetric])
    ultimately have "of_int (2 ^ 52) \<le> y / ?qy" by simp
    then have "rne (of_int (2 ^ 52)) \<le> rne (y / ?qy)" by (rule rne_mono)
    then have "2 ^ 52 \<le> rne (y / ?qy)" by (simp only: rne_of_int)
    then have "(of_int (2 ^ 52) :: rat) \<le> of_int (rne (y / ?qy))" by (simp only: of_int_le_iff)
    then have m: "of_int (2 ^ 52) * ?qy \<le> of_int (rne (y / ?qy)) * ?qy"
      using qy by (simp only: mult_le_cancel_right_pos)
    have "2 powi ?ey = of_int (2 ^ 52) * ?qy"
      using pow2_add[of 52 "?ey - 52"] by (simp add: add.commute)
    also note m
    finally have "2 powi ?ey \<le> round_mag y" unfolding ry .
    with up show ?thesis by simp
  qed
qed

lemma round_mag_nonneg:
  assumes "0 < x"
  shows "0 \<le> round_mag x"
proof -
  have "0 \<le> rne (x / 2 powi (max (expo x) (- 1022) - 52))"
    using rne_mono[of 0 "x / 2 powi (max (expo x) (- 1022) - 52)"] assms
    by (simp add: rne_of_int[of 0, simplified])
  then show ?thesis by (simp add: round_mag_def Let_def)
qed

lemma fl_nonneg: "0 \<le> x \<Longrightarrow> 0 \<le> fl x"
  by (simp add: fl_def round_mag_nonneg)

lemma fl_mono:
  assumes "0 \<le> x" "x \<le> y"
  shows "fl x \<le> fl y"
proof (cases "x = 0")
  case True
  then show ?thesis using fl_nonneg[of y] assms by (simp add: fl_def)
next
  case False
  then have "0 < x" "0 < y" using assms by simp_all
  then show ?thesis using round_mag_mono[of x y] assms by (simp add: fl_def)
qed

lemma DEDUP_THRESHOLD_value: "DEDUP_THRESHOLD = 7656119366529843 / 9007199254740992"
  unfolding DEDUP_THRESHOLD_def by code_simp

lemma fl_1: "fl 1 = 1"
  by code_simp

lemma fl_10: "fl 10 = 10"
  by code_simp

lemma fl_15: "fl 15 = 15"
  by code_simp

lemma fl_100: "fl 100 = 100"
  by code_simp

lemma DBL_MAX_ge_100: "100 \<le> DBL_MAX"
  by (simp add: DBL_MAX_def)

lemma fl_le:
  assumes "0 \<le> x" "x \<le> k" "fl k = k"
  shows "0 \<le> fl x" "fl x \<le> k"
  using fl_nonneg[OF assms(1)] fl_mono[OF assms(1,2)] assms(3) by simp_all

lemma truediv_unit:
  assumes "0 \<le> a" "a \<le> b" "0 < b"
  shows "truediv a b = Inr (fl (of_int a / of_int b))"
    and "0 \<le> fl (of_int a / of_int b)" and "fl (of_int a / of_int b) \<le> 1"
proof -
  have x: "(0::rat) \<le> of_int a / of_int b" "of_int a / of_int b \<le> (1::rat)"
    using assms by simp_all
  from fl_le[OF x fl_1] show b: "0 \<le> fl (of_int a / of_int b)" "fl (of_int a / of_int b) \<le> 1" .
  then have "\<not> DBL_MAX < \<bar>fl (of_int a / of_int b)\<bar>" using DBL_MAX_ge_100 by simp
  then show "truediv a b = Inr (fl (of_int a / of_int b))"
    using assms by (simp add: truediv_def Let_def)
qed

lemma fmul_unit:
  assumes "0 \<le> q" "q \<le> 1" "0 \<le> c" "c \<le> 100" "fl (of_int c) = of_int c"
  shows "fmul q c = Inr (fl (q * of_int c))"
    and "0 \<le> fl (q * of_int c)" and "fl (q * of_int c) \<le> of_int c"
proof -
  have c: "(0::rat) \<le> of_int c" "(of_int c :: rat) \<le> 100" using assms by simp_all
  have x: "0 \<le> q * of_int c" "q * of_int c \<le> of_int c"
    using assms c by (simp_all add: mult_left_le_one_le)
  from fl_le[OF x assms(5)]
  show b: "0 \<le> fl (q * of_int c)" "fl (q * of_int c) \<le> of_int c" .
  have "\<not> DBL_MAX < \<bar>of_int c :: rat\<bar>" using c DBL_MAX_ge_100 by simp
  then have f: "float_of_int c = Inr (of_int c)" by (simp add: float_of_int_def assms(5))
  have "\<not> DBL_MAX < \<bar>fl (q * of_int c)\<bar>" using b c DBL_MAX_ge_100 by simp
  then show "fmul q c = Inr (fl (q * of_int c))" by (simp add: fmul_def f Let_def)
qed

lemma int_ratio_times_eval:
  assumes "0 \<le> a" "a \<le> b" "0 < b" "0 \<le> c" "c \<le> 100" "fl (of_int c) = of_int c"
  shows "and_then (truediv a b) (\<lambda>q. and_then (fmul q c) (\<lambda>p. f (py_int p)))
         = f (int_ratio_times a b c)"
  using truediv_unit[OF assms(1-3)] fmul_unit[OF _ _ assms(4-6), of "fl (of_int a / of_int b)"]
  by (simp add: int_ratio_times_def)

lemma int_ratio_times_bounds:
  assumes "0 \<le> a" "a \<le> b" "0 < b" "0 \<le> c" "c \<le> 100" "fl (of_int c) = of_int c"
  shows "0 \<le> int_ratio_times a b c" "int_ratio_times a b c \<le> c"
proof -
  let ?p = "fl (fl (of_int a / of_int b) * of_int c)"
  from truediv_unit[OF assms(1-3)] fmul_unit[OF _ _ assms(4-6), of "fl (of_int a / of_int b)"]
  have p: "0 \<le> ?p" "?p \<le> of_int c" by simp_all
  then show "0 \<le> int_ratio_times a b c" by (simp add: int_ratio_times_def py_int_def)
  from p have "\<lfloor>?p\<rfloor> \<le> \<lfloor>of_int c :: rat\<rfloor>" by (intro floor_mono)
  then show "int_ratio_times a b c \<le> c" using p by (simp add: int_ratio_times_def py_int_def)
qed

lemma int_ratio_times_mono:
  assumes "0 \<le> a" "a \<le> a'" "0 < b" "0 \<le> c"
  shows "int_ratio_times a b c \<le> int_ratio_times a' b c"
proof -
  have x: "(0::rat) \<le> of_int a / of_int b" "(of_int a :: rat) / of_int b \<le> of_int a' / of_int b"
    using assms by (simp_all add: divide_right_mono)
  have q: "0 \<le> fl (of_int a / of_int b)" "fl (of_int a / of_int b) \<le> fl (of_int a' / of_int b)"
    using fl_nonneg[OF x(1)] fl_mono[OF x] by simp_all
  have c: "(0::rat) \<le> of_int c" using assms by simp
  have y: "0 \<le> fl (of_int a / of_int b) * of_int c"
      "fl (of_int a / of_int b) * of_int c \<le> fl (of_int a' / of_int b) * of_int c"
    using q c by (simp_all add: mult_right_mono)
  have p: "0 \<le> fl (fl (of_int a / of_int b) * of_int c)"
      "fl (fl (of_int a / of_int b) * of_int c) \<le> fl (fl (of_int a' / of_int b) * of_int c)"
    using fl_nonneg[OF y(1)] fl_mono[OF y] by simp_all
  then have "0 \<le> fl (fl (of_int a' / of_int b) * of_int c)" by simp
  with p show ?thesis by (simp add: int_ratio_times_def py_int_def floor_mono)
qed

lemma fl_below_1: "fl (1 - 1 / 2 ^ 53) = 1 - 1 / 2 ^ 53"
  by code_simp

lemma fl_below_10: "fl ((1 - 1 / 2 ^ 53) * 10) = 10 - 1 / 2 ^ 49"
  by code_simp

lemma int_ratio_times_partial:
  assumes "0 \<le> a" "a < b" "b \<le> 2 ^ 53"
  shows "int_ratio_times a b 10 < 10"
proof -
  have b: "(0::rat) < of_int b" using assms by simp
  have "(of_int a :: rat) \<le> of_int b - 1" using assms(2) by (metis of_int_1 of_int_diff of_int_le_iff zle_diff1_eq)
  then have "(of_int a :: rat) / of_int b \<le> (of_int b - 1) / of_int b"
    using b by (simp add: divide_right_mono)
  also have "\<dots> = 1 - 1 / of_int b" using b by (simp add: field_simps)
  also have "\<dots> \<le> 1 - 1 / 2 ^ 53"
  proof -
    have "(of_int b :: rat) \<le> of_int (2 ^ 53)" using assms(3) by (simp only: of_int_le_iff)
    then have "(of_int b :: rat) \<le> 2 ^ 53" by simp
    then have "1 / (2 ^ 53 :: rat) \<le> 1 / of_int b" using b by (simp add: frac_le)
    then show ?thesis by simp
  qed
  finally have x: "(of_int a :: rat) / of_int b \<le> 1 - 1 / 2 ^ 53" .
  have x0: "(0::rat) \<le> of_int a / of_int b" using assms by simp
  have q: "0 \<le> fl (of_int a / of_int b)" "fl (of_int a / of_int b) \<le> 1 - 1 / 2 ^ 53"
    using fl_nonneg[OF x0] fl_mono[OF x0 x] by (simp_all only: fl_below_1)
  have y: "0 \<le> fl (of_int a / of_int b) * 10"
      "fl (of_int a / of_int b) * 10 \<le> (1 - 1 / 2 ^ 53) * 10"
    using q by simp_all
  have p: "0 \<le> fl (fl (of_int a / of_int b) * 10)"
      "fl (fl (of_int a / of_int b) * 10) \<le> 10 - 1 / 2 ^ 49"
    using fl_nonneg[OF y(1)] fl_mono[OF y] by (simp_all only: fl_below_10)
  have "fl (fl (of_int a / of_int b) * 10) < 10" using p(2) by simp
  then have "\<lfloor>fl (fl (of_int a / of_int b) * 10)\<rfloor> < 10" by (simp add: floor_less_iff)
  then show ?thesis using p(1) by (simp add: int_ratio_times_def py_int_def)
qed

section \<open>Deduplication\<close>

lemma is_duplicate_iff:
  "is_duplicate ratio a seen \<longleftrightarrow> (\<exists>p \<in> set seen. spec_duplicate_of ratio a p)"
  by (induction seen) (auto simp: spec_duplicate_of_def title_similarity_def Let_def)

lemma deduplicate_loop_snoc:
  "deduplicate_loop ratio (xs @ [a]) u =
     (if is_duplicate ratio a (deduplicate_loop ratio xs u) then deduplicate_loop ratio xs u
      else deduplicate_loop ratio xs u @ [a])"
  by (induction xs arbitrary: u) auto

lemma deduplicate_loop_subseq:
  "\<exists>ys. deduplicate_loop ratio xs u = u @ ys \<and> subseq ys xs"
proof (induction xs arbitrary: u)
  case Nil
  then show ?case by simp
next
  case (Cons a xs)
  show ?case
  proof (cases "is_duplicate ratio a u")
    case True
    from Cons.IH[of u] obtain ys where "deduplicate_loop ratio xs u = u @ ys" "subseq ys xs"
      by blast
    then show ?thesis using True by (auto intro: subseq_Cons')
  next
    case False
    from Cons.IH[of "u @ [a]"] obtain ys
      where "deduplicate_loop ratio xs (u @ [a]) = (u @ [a]) @ ys" "subseq ys xs"
      by blast
    then show ?thesis using False by (intro exI[of _ "a # ys"]) simp
  qed
qed

lemma no_duplicates_snoc:
  "no_duplicates ratio (u @ [a]) \<longleftrightarrow> no_duplicates ratio u \<and> \<not> is_duplicate ratio a u"
  by (auto simp: no_duplicates_def less_Suc_eq nth_append)

lemma no_duplicates_loop:
  "no_duplicates ratio u \<Longrightarrow> no_duplicates ratio (deduplicate_loop ratio xs u)"
  by (induction xs arbitrary: u) (auto simp: no_duplicates_snoc)

lemma deduplicate_loop_fixed:
  "no_duplicates ratio (u @ v) \<Longrightarrow> deduplicate_loop ratio v u = u @ v"
proof (induction v arbitrary: u)
  case Nil
  then show ?case by simp
next
  case (Cons a v)
  from Cons.prems have nd: "no_duplicates ratio ((u @ [a]) @ v)" by simp
  have "\<not> is_duplicate ratio a u"
    using Cons.prems unfolding no_duplicates_def
    by (drule_tac x = "length u" in spec) simp
  then show ?case using Cons.IH[OF nd] by simp
qed

text \<open>
  C2. \<open>deduplicate\<close> accepts a record exactly when it is not a duplicate of a record
  accepted before it: nothing is accepted from the empty input, and the record that follows
  the input \<open>xs\<close> is appended to the result for \<open>xs\<close> unless one of the records of that
  result is a duplicate partner in the sense of the specification (same non-empty url, or
  both titles non-empty with a case-folded similarity ratio of at least the threshold). In
  particular a record whose url and title are both empty is accepted.
\<close>

theorem deduplicate_accepts:
  "deduplicate ratio [] = []
   \<and> deduplicate ratio (xs @ [a]) =
       (if \<exists>p \<in> set (deduplicate ratio xs). spec_duplicate_of ratio a p
        then deduplicate ratio xs else deduplicate ratio xs @ [a])
   \<and> (get a ''url'' = [] \<and> get a ''title'' = [] \<longrightarrow>
        deduplicate ratio (xs @ [a]) = deduplicate ratio xs @ [a])"
proof -
  have step: "deduplicate ratio (xs @ [a]) =
       (if \<exists>p \<in> set (deduplicate ratio xs). spec_duplicate_of ratio a p
        then deduplicate ratio xs else deduplicate ratio xs @ [a])"
    unfolding deduplicate_def deduplicate_loop_snoc is_duplicate_iff ..
  have "get a ''url'' = [] \<and> get a ''title'' = [] \<Longrightarrow>
      \<not> (\<exists>p \<in> set (deduplicate ratio xs). spec_duplicate_of ratio a p)"
    by (simp add: spec_duplicate_of_def)
  with step show ?thesis by (simp add: deduplicate_def)
qed

theorem deduplicate_accepts_witness:
  "deduplicate (\<lambda>a b. if a = b then 1 else 0)
      ([[''url'' \<mapsto> ''a.com/1'', ''title'' \<mapsto> ''X'']] @ [[''url'' \<mapsto> ''a.com/1'', ''title'' \<mapsto> ''Y'']])
     = [[''url'' \<mapsto> ''a.com/1'', ''title'' \<mapsto> ''X'']]
   \<and> get Map.empty ''url'' = [] \<and> get Map.empty ''title'' = []
   \<and> deduplicate (\<lambda>a b. if a = b then 1 else 0)
      ([[''url'' \<mapsto> ''a.com/1'', ''title'' \<mapsto> ''X'']] @ [Map.empty])
     = [[''url'' \<mapsto> ''a.com/1'', ''title'' \<mapsto> ''X''], Map.empty]"
  using deduplicate_accepts [of "\<lambda>a b. if a = b then 1 else 0"
      "[[''url'' \<mapsto> ''a.com/1'', ''title'' \<mapsto> ''X'']]" "[''url'' \<mapsto> ''a.com/1'', ''title'' \<mapsto> ''Y'']"]
    deduplicate_accepts [of "\<lambda>a b. if a = b then 1 else 0"
      "[[''url'' \<mapsto> ''a.com/1'', ''title'' \<mapsto> ''X'']]" Map.empty]
  by (simp add: deduplicate_def spec_duplicate_of_def get_def)

text \<open>
  C5. \<open>deduplicate\<close> preserves order, its result being a subsequence of its input with the
  accepted records unchanged, and it is idempotent.
\<close>

theorem deduplicate_order_idempotent:
  "subseq (deduplicate ratio xs) xs
   \<and> deduplicate ratio (deduplicate ratio xs) = deduplicate ratio xs"
proof
  from deduplicate_loop_subseq[of ratio xs "[]"] show "subseq (deduplicate ratio xs) xs"
    by (auto simp: deduplicate_def)
  have "no_duplicates ratio ([] @ deduplicate_loop ratio xs [])"
    using no_duplicates_loop[of ratio "[]" xs] by (simp add: no_duplicates_def)
  from deduplicate_loop_fixed[OF this]
  show "deduplicate ratio (deduplicate ratio xs) = deduplicate ratio xs"
    by (simp add: deduplicate_def)
qed

section \<open>Prompt templates\<close>

lemma TEMPLATES_dom: "dom TEMPLATES = set CONTENT_TYPES"
  by (auto simp: TEMPLATES_def CONTENT_TYPES_def)

text \<open>
  C8. \<open>get_template\<close> raises exactly when the content type is not one of the four
  recognised ones, the error being a \<open>ValueError\<close> whose message names the content type
  given; for each recognised content type it returns the template of that type.
\<close>

theorem get_template_cases:
  "((\<exists>e. get_template content_type = Inl e) \<longleftrightarrow> content_type \<notin> set CONTENT_TYPES)
   \<and> (content_type \<notin> set CONTENT_TYPES \<longrightarrow>
        get_template content_type =
          Inl (ValueError (''Unknown content type '' @ [CHR 39] @ content_type @ [CHR 39]
            @ ''. Must be one of: best_bets, player_props, odds_analysis, predictions'')))
   \<and> get_template ''best_bets'' = Inr BEST_BETS_TEMPLATE
   \<and> get_template ''player_props'' = Inr PLAYER_PROPS_TEMPLATE
   \<and> get_template ''odds_analysis'' = Inr ODDS_ANALYSIS_TEMPLATE
   \<and> get_template ''predictions'' = Inr PREDICTIONS_TEMPLATE"
  by (auto simp: get_template_def TEMPLATES_def CONTENT_TYPES_def unknown_content_type_def
      split: option.splits)

theorem get_template_cases_witness:
  "''news'' \<notin> set CONTENT_TYPES
   \<and> get_template ''news'' =
       Inl (ValueError (''Unknown content type '' @ [CHR 39] @ ''news'' @ [CHR 39]
         @ ''. Must be one of: best_bets, player_props, odds_analysis, predictions''))"
  using get_template_cases [of "''news''"] by (simp add: CONTENT_TYPES_def)

section \<open>SEO validation\<close>

lemmas block_defs = add_points_def add_max_def append_issue_def init_def combine_def Let_def

lemma check_title_combine: "check_title title st = combine st (check_title title init)"
  by (simp add: check_title_def block_defs)

lemma check_meta_combine: "check_meta m st = combine st (check_meta m init)"
  by (simp add: check_meta_def block_defs)

lemma check_h2_combine: "check_h2 body st = combine st (check_h2 body init)"
  by (simp add: check_h2_def block_defs)

lemma check_link_combine: "check_link body st = combine st (check_link body init)"
  by (simp add: check_link_def block_defs)

lemma int_ratio_times_steps:
  assumes "0 \<le> a" "a \<le> b" "0 < b" "0 \<le> c" "c \<le> 100" "fl (of_int c) = of_int c"
  shows "truediv a b = Inr (fl (of_int a / of_int b))"
    and "fmul (fl (of_int a / of_int b)) c = Inr (fl (fl (of_int a / of_int b) * of_int c))"
  using truediv_unit[OF assms(1-3)] fmul_unit[OF _ _ assms(4-6), of "fl (of_int a / of_int b)"]
  by simp_all

lemma check_word_count_eq:
  "check_word_count body st =
     Inr (if MIN_WORD_COUNT \<le> int (length (split body)) then add_points 20 (add_max 20 st)
          else add_points (min (int_ratio_times (int (length (split body))) MIN_WORD_COUNT 15) 15)
                 (append_issue (''Word count is '' @ str_int (int (length (split body)))
                    @ '' (minimum: '' @ str_int MIN_WORD_COUNT @ '')'') (add_max 20 st)))"
proof (cases "MIN_WORD_COUNT \<le> int (length (split body))")
  case True
  then show ?thesis by (simp add: check_word_count_def Let_def)
next
  case False
  then have a: "0 \<le> int (length (split body))" "int (length (split body)) \<le> MIN_WORD_COUNT"
    "0 < MIN_WORD_COUNT" by (simp_all add: MIN_WORD_COUNT_def)
  have c: "(0::int) \<le> 15" "(15::int) \<le> 100" "fl (of_int 15) = of_int 15"
    using fl_15 by simp_all
  define q where "q = fl (of_int (int (length (split body))) / of_int MIN_WORD_COUNT)"
  define p where "p = fl (q * of_int 15)"
  have t: "truediv (int (length (split body))) MIN_WORD_COUNT = Inr q"
    and m: "fmul q 15 = Inr p"
    unfolding p_def q_def by (rule int_ratio_times_steps[OF a c])+
  have r: "int_ratio_times (int (length (split body))) MIN_WORD_COUNT 15 = py_int p"
    unfolding int_ratio_times_def p_def q_def ..
  show ?thesis
    using False by (simp add: check_word_count_def Let_def t m r)
qed


lemma found_keywords_bounds: "0 \<le> found_keywords kws body" "found_keywords kws body \<le> int (length kws)"
  by (simp_all add: found_keywords_def)

lemma check_keywords_eq:
  "check_keywords keywords body st =
     Inr (case keywords of
        None \<Rightarrow> add_points 10 (add_max 10 st)
      | Some kws \<Rightarrow>
          if kws = [] \<or> found_keywords kws body = int (length kws) then add_points 10 (add_max 10 st)
          else if 0 < found_keywords kws body then
            append_issue (''Missing keywords: ''
                @ join '', '' (filter (\<lambda>kw. \<not> substring_in (lower kw) (lower body)) kws))
              (add_points (int_ratio_times (found_keywords kws body) (int (length kws)) 10)
                (add_max 10 st))
          else append_issue ''No target keywords found in body'' (add_max 10 st))"
proof (cases "keywords")
  case None
  then show ?thesis by (simp add: check_keywords_def)
next
  case (Some kws)
  show ?thesis
  proof (cases kws)
    case Nil
    then show ?thesis using Some by (simp add: check_keywords_def)
  next
    case (Cons k ks)
    have ne: "kws \<noteq> []" using Cons by simp
    have a: "0 \<le> found_keywords kws body" "found_keywords kws body \<le> int (length kws)"
      "0 < int (length kws)" using found_keywords_bounds[of kws body] ne by simp_all
    have c: "(0::int) \<le> 10" "(10::int) \<le> 100" "fl (of_int 10) = of_int 10"
      using fl_10 by simp_all
    define q where "q = fl (of_int (found_keywords kws body) / of_int (int (length kws)))"
    define p where "p = fl (q * of_int 10)"
    have t: "truediv (found_keywords kws body) (int (length kws)) = Inr q"
      and m: "fmul q 10 = Inr p"
      unfolding p_def q_def by (rule int_ratio_times_steps[OF a c])+
    have r: "int_ratio_times (found_keywords kws body) (int (length kws)) 10 = py_int p"
      unfolding int_ratio_times_def p_def q_def ..
    have "check_keywords (Some (k # ks)) body st =
      (let st = add_max 10 st in
       if found_keywords (k # ks) body = int (length (k # ks)) then Inr (add_points 10 st)
       else if 0 < found_keywords (k # ks) body then
         and_then (truediv (found_keywords (k # ks) body) (int (length (k # ks)))) (\<lambda>q.
         and_then (fmul q 10) (\<lambda>p.
           Inr (append_issue (''Missing keywords: ''
                @ join '', '' (filter (\<lambda>kw. \<not> substring_in (lower kw) (lower body)) (k # ks)))
              (add_points (py_int p) st))))
       else Inr (append_issue ''No target keywords found in body'' st))"
      unfolding check_keywords_def found_keywords_def by (simp add: Let_def)
    then have "check_keywords (Some kws) body st =
      (if found_keywords kws body = int (length kws) then Inr (add_points 10 (add_max 10 st))
       else if 0 < found_keywords kws body then
           Inr (append_issue (''Missing keywords: ''
                @ join '', '' (filter (\<lambda>kw. \<not> substring_in (lower kw) (lower body)) kws))
              (add_points (py_int p) (add_max 10 st)))
       else Inr (append_issue ''No target keywords found in body'' (add_max 10 st)))"
      unfolding Cons[symmetric] Let_def by (simp only: t m and_then_Inr)
    then show ?thesis
      using Some ne by (simp add: r)
  qed
qed

lemma combine_init: "combine init d = d"
  by (simp add: combine_def init_def)

lemma check_title_init:
  "max_points (check_title title init) = 20"
  "0 \<le> total_points (check_title title init)"
  "total_points (check_title title init) \<le> 20"
  "length (l_issues (check_title title init)) = (if total_points (check_title title init) = 20 then 0 else 1)"
  by (simp_all add: check_title_def block_defs)

lemma check_meta_init:
  "max_points (check_meta m init) = 20"
  "0 \<le> total_points (check_meta m init)"
  "total_points (check_meta m init) \<le> 20"
  "length (l_issues (check_meta m init)) = (if total_points (check_meta m init) = 20 then 0 else 1)"
  by (simp_all add: check_meta_def block_defs)

lemma check_h2_init:
  "max_points (check_h2 body init) = 20"
  "0 \<le> total_points (check_h2 body init)"
  "total_points (check_h2 body init) \<le> 20"
  "length (l_issues (check_h2 body init)) = (if total_points (check_h2 body init) = 20 then 0 else 1)"
  by (simp_all add: check_h2_def block_defs MIN_H2_COUNT_def)

lemma check_link_init:
  "max_points (check_link body init) = 10"
  "0 \<le> total_points (check_link body init)"
  "total_points (check_link body init) \<le> 10"
  "length (l_issues (check_link body init)) = (if total_points (check_link body init) = 10 then 0 else 1)"
  by (simp_all add: check_link_def block_defs)

lemma check_word_count_init:
  obtains d where "check_word_count body init = Inr d"
    and "\<And>st. check_word_count body st = Inr (combine st d)"
    and "max_points d = 20" and "0 \<le> total_points d" and "total_points d \<le> 20"
    and "length (l_issues d) = (if total_points d = 20 then 0 else 1)"
proof -
  let ?w = "int (length (split body))"
  let ?d = "if MIN_WORD_COUNT \<le> ?w then add_points 20 (add_max 20 init)
          else add_points (min (int_ratio_times ?w MIN_WORD_COUNT 15) 15)
                 (append_issue (''Word count is '' @ str_int ?w
                    @ '' (minimum: '' @ str_int MIN_WORD_COUNT @ '')'') (add_max 20 init))"
  have c: "(0::int) \<le> 15" "(15::int) \<le> 100" "fl (of_int 15) = of_int 15"
    using fl_15 by simp_all
  have nn: "\<not> MIN_WORD_COUNT \<le> ?w \<Longrightarrow> 0 \<le> int_ratio_times ?w MIN_WORD_COUNT 15"
    by (rule int_ratio_times_bounds(1)[OF _ _ _ c]) (simp_all add: MIN_WORD_COUNT_def)
  show thesis
  proof (rule that[of ?d])
    show "check_word_count body init = Inr ?d" by (rule check_word_count_eq)
    show "check_word_count body st = Inr (combine st ?d)" for st
      unfolding check_word_count_eq by (simp add: block_defs)
    show "max_points ?d = 20" by (simp add: block_defs)
    show "0 \<le> total_points ?d" using nn by (simp add: block_defs)
    show "total_points ?d \<le> 20" by (simp add: block_defs min_le_iff_disj)
    show "length (l_issues ?d) = (if total_points ?d = 20 then 0 else 1)"
      by (simp add: block_defs min_def)
  qed
qed


lemma check_keywords_init:
  obtains d where "check_keywords keywords body init = Inr d"
    and "\<And>st. check_keywords keywords body st = Inr (combine st d)"
    and "max_points d = 10" and "0 \<le> total_points d" and "total_points d \<le> 10"
    and "length (l_issues d) \<le> 1"
    and "l_issues d = [] \<Longrightarrow> total_points d = 10"
    and "length (keyword_list keywords) \<le> 2 ^ 53 \<Longrightarrow>
           length (l_issues d) = (if total_points d = 10 then 0 else 1)"
proof -
  let ?d = "case keywords of
        None \<Rightarrow> add_points 10 (add_max 10 init)
      | Some kws \<Rightarrow>
          if kws = [] \<or> found_keywords kws body = int (length kws) then add_points 10 (add_max 10 init)
          else if 0 < found_keywords kws body then
            append_issue (''Missing keywords: ''
                @ join '', '' (filter (\<lambda>kw. \<not> substring_in (lower kw) (lower body)) kws))
              (add_points (int_ratio_times (found_keywords kws body) (int (length kws)) 10)
                (add_max 10 init))
          else append_issue ''No target keywords found in body'' (add_max 10 init)"
  have c: "(0::int) \<le> 10" "(10::int) \<le> 100" "fl (of_int 10) = of_int 10"
    using fl_10 by simp_all
  have b: "0 \<le> int_ratio_times (found_keywords kws body) (int (length kws)) 10"
       "int_ratio_times (found_keywords kws body) (int (length kws)) 10 \<le> 10"
    if "kws \<noteq> []" for kws
    using int_ratio_times_bounds[OF found_keywords_bounds _ c, of kws body] that by simp_all
  have s: "int_ratio_times (found_keywords kws body) (int (length kws)) 10 < 10"
    if "found_keywords kws body \<noteq> int (length kws)" "length kws \<le> 2 ^ 53" for kws
  proof -
    have "found_keywords kws body < int (length kws)"
      using that(1) found_keywords_bounds(2)[of kws body] by simp
    moreover have "int (length kws) \<le> int (2 ^ 53)" using that(2) by (simp only: of_nat_le_iff)
    then have "int (length kws) \<le> 2 ^ 53" by simp
    ultimately show ?thesis
      by (intro int_ratio_times_partial found_keywords_bounds)
  qed
  show thesis
  proof (rule that[of ?d])
    show "check_keywords keywords body init = Inr ?d" by (rule check_keywords_eq)
    show "check_keywords keywords body st = Inr (combine st ?d)" for st
      unfolding check_keywords_eq by (simp add: block_defs split: option.split)
    show "max_points ?d = 10" by (simp add: block_defs split: option.split)
    show "0 \<le> total_points ?d" using b(1) by (simp add: block_defs split: option.split)
    show "total_points ?d \<le> 10" using b(2) by (simp add: block_defs split: option.split)
    show "length (l_issues ?d) \<le> 1" by (simp add: block_defs split: option.split)
    show "l_issues ?d = [] \<Longrightarrow> total_points ?d = 10"
      by (cases "keywords") (auto simp add: block_defs split: if_splits)
    show "length (l_issues ?d) = (if total_points ?d = 10 then 0 else 1)"
      if "length (keyword_list keywords) \<le> 2 ^ 53"
    proof (cases "keywords")
      case None
      then show ?thesis by (simp add: block_defs)
    next
      case (Some a)
      then show ?thesis using that s[of a] by (auto simp add: block_defs keyword_list_def)
    qed
  qed
qed

lemma final_score_eq:
  assumes "0 \<le> total_points st" "total_points st \<le> 100" "max_points st = 100"
  shows "final_score st = Inr (int_ratio_times (total_points st) 100 100)"
    and "0 \<le> int_ratio_times (total_points st) 100 100"
    and "int_ratio_times (total_points st) 100 100 \<le> 100"
proof -
  have a: "0 \<le> total_points st" "total_points st \<le> 100" "(0::int) < 100"
    using assms by simp_all
  have c: "(0::int) \<le> 100" "(100::int) \<le> 100" "fl (of_int 100) = of_int 100"
    using fl_100 by simp_all
  define q where "q = fl (of_int (total_points st) / of_int 100)"
  define p where "p = fl (q * of_int 100)"
  have t: "truediv (total_points st) 100 = Inr q" and m: "fmul q 100 = Inr p"
    unfolding p_def q_def by (rule int_ratio_times_steps[OF a c])+
  have r: "int_ratio_times (total_points st) 100 100 = py_int p"
    unfolding int_ratio_times_def p_def q_def ..
  show "final_score st = Inr (int_ratio_times (total_points st) 100 100)"
    by (simp add: final_score_def assms(3) t m r)
  show "0 \<le> int_ratio_times (total_points st) 100 100"
    "int_ratio_times (total_points st) 100 100 \<le> 100"
    using int_ratio_times_bounds[OF a c] by simp_all
qed

lemma run_checks_combine:
  assumes "\<And>st. check_word_count body st = Inr (combine st w)"
    and "\<And>st. check_keywords keywords body st = Inr (combine st k)"
  shows "run_checks title m body keywords =
     Inr (combine (combine (combine (combine (combine (check_title title init)
       (check_meta m init)) (check_h2 body init)) w) k) (check_link body init))"
  unfolding run_checks_def assms and_then_Inr
  by (simp only: check_meta_combine[of m "check_title title init"]
      check_h2_combine[of body "combine (check_title title init) (check_meta m init)"]
      check_link_combine[of body "combine _ k"])

lemma run_checks_outcome:
  obtains w k st where "check_word_count body init = Inr w"
    and "check_keywords keywords body init = Inr k"
    and "run_checks title m body keywords = Inr st"
    and "l_issues st = l_issues (check_title title init) @ l_issues (check_meta m init)
           @ l_issues (check_h2 body init) @ l_issues w @ l_issues k
           @ l_issues (check_link body init)"
    and "total_points st = total_points (check_title title init) + total_points (check_meta m init)
           + total_points (check_h2 body init) + total_points w + total_points k
           + total_points (check_link body init)"
    and "max_points st = 100"
    and "max_points w = 20" and "0 \<le> total_points w" and "total_points w \<le> 20"
    and "length (l_issues w) = (if total_points w = 20 then 0 else 1)"
    and "max_points k = 10" and "0 \<le> total_points k" and "total_points k \<le> 10"
    and "length (l_issues k) \<le> 1"
    and "l_issues k = [] \<Longrightarrow> total_points k = 10"
    and "length (keyword_list keywords) \<le> 2 ^ 53 \<Longrightarrow>
           length (l_issues k) = (if total_points k = 10 then 0 else 1)"
proof -
  obtain w where w: "check_word_count body init = Inr w"
    "\<And>st. check_word_count body st = Inr (combine st w)"
    "max_points w = 20" "0 \<le> total_points w" "total_points w \<le> 20"
    "length (l_issues w) = (if total_points w = 20 then 0 else 1)"
    using check_word_count_init[of body] by blast
  obtain k where k: "check_keywords keywords body init = Inr k"
    "\<And>st. check_keywords keywords body st = Inr (combine st k)"
    "max_points k = 10" "0 \<le> total_points k" "total_points k \<le> 10"
    "length (l_issues k) \<le> 1"
    "l_issues k = [] \<Longrightarrow> total_points k = 10"
    "length (keyword_list keywords) \<le> 2 ^ 53 \<Longrightarrow>
           length (l_issues k) = (if total_points k = 10 then 0 else 1)"
    using check_keywords_init[of "keywords" body] by blast
  note r = run_checks_combine[of body w "keywords" k title m, OF w(2) k(2)]
  show thesis
  proof (rule that[OF w(1) k(1) r])
    show "max_points (combine (combine (combine (combine (combine (check_title title init)
       (check_meta m init)) (check_h2 body init)) w) k) (check_link body init)) = 100"
      by (simp add: combine_def check_title_init check_meta_init check_h2_init check_link_init w k)
  qed (use w k in \<open>simp_all add: combine_def\<close>)
qed

lemma int_ratio_times_100: "int_ratio_times 100 100 100 = 100"
  unfolding int_ratio_times_def by code_simp

lemma validate_outcome:
  obtains w k st where "check_word_count body init = Inr w"
    and "check_keywords keywords body init = Inr k"
    and "run_checks title m body keywords = Inr st"
    and "validate title m body keywords =
      Inr \<lparr>passed = (PASS_THRESHOLD \<le> int_ratio_times (total_points st) 100 100),
           score = int_ratio_times (total_points st) 100 100, issues = l_issues st\<rparr>"
    and "0 \<le> int_ratio_times (total_points st) 100 100"
    and "int_ratio_times (total_points st) 100 100 \<le> 100"
    and "l_issues st = [] \<Longrightarrow> total_points st = 100"
    and "l_issues st = l_issues (check_title title init) @ l_issues (check_meta m init)
           @ l_issues (check_h2 body init) @ l_issues w @ l_issues k
           @ l_issues (check_link body init)"
    and "length (l_issues w) = (if total_points w = max_points w then 0 else 1)"
    and "length (keyword_list keywords) \<le> 2 ^ 53 \<Longrightarrow>
           length (l_issues k) = (if total_points k = max_points k then 0 else 1)"
    and "length (l_issues k) \<le> 1"
    and "l_issues k = [] \<Longrightarrow> total_points k = max_points k"
proof -
  obtain w k st where o: "check_word_count body init = Inr w"
    "check_keywords keywords body init = Inr k"
    "run_checks title m body keywords = Inr st"
    "l_issues st = l_issues (check_title title init) @ l_issues (check_meta m init)
           @ l_issues (check_h2 body init) @ l_issues w @ l_issues k
           @ l_issues (check_link body init)"
    "total_points st = total_points (check_title title init) + total_points (check_meta m init)
           + total_points (check_h2 body init) + total_points w + total_points k
           + total_points (check_link body init)"
    "max_points st = 100"
    "max_points w = 20" "0 \<le> total_points w" "total_points w \<le> 20"
    "length (l_issues w) = (if total_points w = 20 then 0 else 1)"
    "max_points k = 10" "0 \<le> total_points k" "total_points k \<le> 10"
    "length (l_issues k) \<le> 1"
    "l_issues k = [] \<Longrightarrow> total_points k = 10"
    "length (keyword_list keywords) \<le> 2 ^ 53 \<Longrightarrow>
           length (l_issues k) = (if total_points k = 10 then 0 else 1)"
    using run_checks_outcome[of body "keywords" title m] by blast
  have lo: "0 \<le> total_points st"
    unfolding o(5) using check_title_init(2)[of title] check_meta_init(2)[of m]
      check_h2_init(2)[of body] check_link_init(2)[of body] o(8) o(12) by linarith
  have hi: "total_points st \<le> 100"
    unfolding o(5) using check_title_init(3)[of title] check_meta_init(3)[of m]
      check_h2_init(3)[of body] check_link_init(3)[of body] o(9) o(13) by linarith
  note f = final_score_eq[OF lo hi o(6)]
  have full: "total_points st = 100" if e: "l_issues st = []"
  proof -
    from e have z: "l_issues (check_title title init) = []" "l_issues (check_meta m init) = []"
      "l_issues (check_h2 body init) = []" "l_issues w = []" "l_issues k = []"
      "l_issues (check_link body init) = []" unfolding o(4) by simp_all
    have "total_points (check_title title init) = 20"
      using check_title_init(4)[of title] z(1) by (simp split: if_splits)
    moreover have "total_points (check_meta m init) = 20"
      using check_meta_init(4)[of m] z(2) by (simp split: if_splits)
    moreover have "total_points (check_h2 body init) = 20"
      using check_h2_init(4)[of body] z(3) by (simp split: if_splits)
    moreover have "total_points w = 20" using o(10) z(4) by (simp split: if_splits)
    moreover have "total_points k = 10" using o(15) z(5) by simp
    moreover have "total_points (check_link body init) = 10"
      using check_link_init(4)[of body] z(6) by (simp split: if_splits)
    ultimately show ?thesis unfolding o(5) by simp
  qed
  show thesis
  proof (rule that[OF o(1) o(2) o(3)])
    show "validate title m body keywords =
      Inr \<lparr>passed = (PASS_THRESHOLD \<le> int_ratio_times (total_points st) 100 100),
           score = int_ratio_times (total_points st) 100 100, issues = l_issues st\<rparr>"
      by (simp add: validate_def o(3) f(1))
  qed (use f full o in simp_all)
qed

lemma issue_lists_empty_iff:
  assumes "\<forall>c \<in> set cs. length (l_issues c) = (if total_points c = max_points c then 0 else 1)"
  shows "concat (map l_issues cs) = [] \<longleftrightarrow> (\<forall>c \<in> set cs. total_points c = max_points c)"
proof -
  have "l_issues c = [] \<longleftrightarrow> total_points c = max_points c" if "c \<in> set cs" for c
    using assms that by (auto split: if_splits)
  then show ?thesis by simp
qed


subsection \<open>Two calls evaluated\<close>

lemma irt_a: "int_ratio_times 2 500 15 = 0"
  unfolding int_ratio_times_def by code_simp

lemma irt_b: "int_ratio_times 2 5 10 = 4"
  unfolding int_ratio_times_def by code_simp

lemma irt_c: "int_ratio_times 29 100 100 = 28"
  unfolding int_ratio_times_def by code_simp

lemma irt_d: "int_ratio_times 57 100 100 = 56"
  unfolding int_ratio_times_def by code_simp

lemma irt_e: "int_ratio_times 58 100 100 = 57"
  unfolding int_ratio_times_def by code_simp

lemma str_int_values: "str_int 0 = ''0''" "str_int 1 = ''1''" "str_int 2 = ''2''"
  "str_int 30 = ''30''" "str_int 70 = ''70''" "str_int 120 = ''120''" "str_int 170 = ''170''"
  "str_int 500 = ''500''"
  by code_simp+

lemma ex_title: "check_title ''NBA Best Bets for Tonight: Top'' init
   = \<lparr>l_issues = [], total_points = 20, max_points = 20\<rparr>"
  by (simp add: check_title_def block_defs TITLE_MIN_LEN_def TITLE_MAX_LEN_def)

lemma ex_meta: "check_meta ''x'' st
   = st\<lparr>l_issues := l_issues st @ [''Meta description length is 1 chars (target: 120-170)''],
       total_points := total_points st + 5, max_points := max_points st + 20\<rparr>"
  by (simp add: check_meta_def block_defs META_MIN_LEN_def META_MAX_LEN_def str_int_values)

lemma ex_h2: "check_h2 ''a b'' st
   = st\<lparr>l_issues := l_issues st @ [''Found 0 H2 headings (minimum: 2)''],
       max_points := max_points st + 20\<rparr>"
  by (simp add: check_h2_def block_defs MIN_H2_COUNT_def str_int_values)

lemma ex_split: "split ''a b'' = [''a'', ''b'']"
  by (simp add: split_def is_space_def)

lemma ex_wc: "check_word_count ''a b'' st
   = Inr (st\<lparr>l_issues := l_issues st @ [''Word count is 2 (minimum: 500)''],
       max_points := max_points st + 20\<rparr>)"
  unfolding check_word_count_eq ex_split
  by (simp add: block_defs MIN_WORD_COUNT_def str_int_values irt_a)

lemma ex_lower: "lower ''a b'' = ''a b''" "lower ''a'' = ''a''" "lower ''b'' = ''b''"
  "lower ''c'' = ''c''" "lower ''d'' = ''d''" "lower ''e'' = ''e''"
  by (simp_all add: lower_def lower_char_def)

lemma ex_found: "found_keywords [''a'', ''b'', ''c'', ''d'', ''e''] ''a b'' = 2"
  by (simp add: found_keywords_def ex_lower)

lemma ex_kw: "check_keywords (Some [''a'', ''b'', ''c'', ''d'', ''e'']) ''a b'' st
   = Inr (st\<lparr>l_issues := l_issues st @ [''Missing keywords: c, d, e''],
       total_points := total_points st + 4, max_points := max_points st + 10\<rparr>)"
  unfolding check_keywords_eq
  by (simp add: ex_found irt_b block_defs ex_lower)

lemma ex_link: "check_link ''a b'' st
   = st\<lparr>l_issues := l_issues st @ [''Missing {{novig_internal_link}} placeholder''],
       max_points := max_points st + 10\<rparr>"
  by (simp add: check_link_def block_defs)

lemma ex_run: "run_checks ''NBA Best Bets for Tonight: Top'' ''x'' ''a b''
     (Some [''a'', ''b'', ''c'', ''d'', ''e''])
   = Inr \<lparr>l_issues = [''Meta description length is 1 chars (target: 120-170)'',
       ''Found 0 H2 headings (minimum: 2)'', ''Word count is 2 (minimum: 500)'',
       ''Missing keywords: c, d, e'', ''Missing {{novig_internal_link}} placeholder''],
     total_points = 29, max_points = 100\<rparr>"
  unfolding run_checks_def ex_title ex_meta ex_h2 ex_wc and_then_Inr ex_kw ex_link
  by simp

lemma ex_empty_run: "run_checks [] [] [] None
   = Inr \<lparr>l_issues = [''Title length is 0 chars (target: 30-70)'',
       ''Meta description length is 0 chars (target: 120-170)'',
       ''Found 0 H2 headings (minimum: 2)'', ''Word count is 0 (minimum: 500)'',
       ''Missing {{novig_internal_link}} placeholder''],
     total_points = 10, max_points = 100\<rparr>"
proof -
  have s: "split [] = []" by (simp add: split_def)
  have z: "int_ratio_times 0 500 15 = 0" unfolding int_ratio_times_def by code_simp
  have w: "check_word_count [] st
     = Inr (st\<lparr>l_issues := l_issues st @ [''Word count is 0 (minimum: 500)''],
       max_points := max_points st + 20\<rparr>)" for st
    unfolding check_word_count_eq s
    by (simp add: block_defs MIN_WORD_COUNT_def str_int_values z)
  show ?thesis
    unfolding run_checks_def w and_then_Inr check_keywords_eq
    by (simp add: check_title_def check_meta_def check_h2_def check_link_def block_defs
        TITLE_MIN_LEN_def TITLE_MAX_LEN_def META_MIN_LEN_def META_MAX_LEN_def MIN_H2_COUNT_def
        str_int_values)
qed

lemma irt_10: "int_ratio_times 10 100 100 = 10"
  unfolding int_ratio_times_def by code_simp

subsection \<open>The claims\<close>

text \<open>
  C7. With an empty keyword list the keyword check adds its full 10 points and no issue,
  whatever the body is; so it does when the argument is \<open>None\<close>.
\<close>

theorem check_keywords_empty:
  "check_keywords (Some []) body st =
     Inr (st\<lparr>total_points := total_points st + 10, max_points := max_points st + 10\<rparr>)
   \<and> check_keywords None body st =
     Inr (st\<lparr>total_points := total_points st + 10, max_points := max_points st + 10\<rparr>)"
  by (simp add: check_keywords_def add_points_def add_max_def)

text \<open>
  C10. \<open>validate\<close> called with \<open>None\<close> for the keywords returns what it returns for the empty
  list.
\<close>

theorem validate_None_eq_empty:
  "validate title meta_description body None = validate title meta_description body (Some [])"
  by (simp add: validate_def run_checks_def check_keywords_def)

text \<open>
  C1. The score is meant to be \<open>total_points\<close> itself, \<open>max_points\<close> being 100. It is not
  for a title of 30 characters, a meta description of one character, the body \<open>a b\<close> and
  five keywords of which two occur: the six checks award 20 + 5 + 0 + 0 + 4 + 0 = 29 of 100
  points, the float \<open>29 / 100 * 100\<close> lies just below 29, and \<open>int\<close> truncates it to 28.
\<close>

theorem validate_score_truncated:
  "run_checks ''NBA Best Bets for Tonight: Top'' ''x'' ''a b''
     (Some [''a'', ''b'', ''c'', ''d'', ''e''])
   = Inr \<lparr>l_issues = [''Meta description length is 1 chars (target: 120-170)'',
       ''Found 0 H2 headings (minimum: 2)'', ''Word count is 2 (minimum: 500)'',
       ''Missing keywords: c, d, e'', ''Missing {{novig_internal_link}} placeholder''],
     total_points = 29, max_points = 100\<rparr>
   \<and> validate ''NBA Best Bets for Tonight: Top'' ''x'' ''a b''
     (Some [''a'', ''b'', ''c'', ''d'', ''e''])
   = Inr \<lparr>passed = False, score = 28,
       issues = [''Meta description length is 1 chars (target: 120-170)'',
       ''Found 0 H2 headings (minimum: 2)'', ''Word count is 2 (minimum: 500)'',
       ''Missing keywords: c, d, e'', ''Missing {{novig_internal_link}} placeholder'']\<rparr>"
  unfolding validate_def ex_run and_then_Inr
  by (simp add: final_score_eq(1) irt_c PASS_THRESHOLD_def)

text \<open>
  C3. \<open>validate\<close> returns a result whose score lies between 0 and 100 and whose \<open>passed\<close>
  flag says whether the score is at least 70.
\<close>

theorem validate_score_range:
  "\<exists>r. validate title meta_description body keywords = Inr r
     \<and> 0 \<le> score r \<and> score r \<le> 100 \<and> passed r = (70 \<le> score r)"
proof (rule validate_outcome[of body "keywords" title meta_description], goal_cases)
  case (1 w k st)
  show ?case unfolding 1(4) using 1(5,6) by (simp add: PASS_THRESHOLD_def)
qed

text \<open>
  C6. \<open>validate\<close> returns a result for every title, meta description, body and keyword
  argument, the absent and the empty keyword list included: no division by zero and no
  overflow can occur. A score below 100 comes with at least one issue.
\<close>

theorem validate_total:
  "\<exists>r. validate title meta_description body keywords = Inr r
     \<and> (issues r \<noteq> [] \<or> score r = 100)"
proof (rule validate_outcome[of body "keywords" title meta_description], goal_cases)
  case (1 w k st)
  show ?case unfolding 1(4) using 1(7) int_ratio_times_100 by auto
qed

theorem validate_total_witness:
  "validate [] [] [] None
   = Inr \<lparr>passed = False, score = 10,
       issues = [''Title length is 0 chars (target: 30-70)'',
       ''Meta description length is 0 chars (target: 120-170)'',
       ''Found 0 H2 headings (minimum: 2)'', ''Word count is 0 (minimum: 500)'',
       ''Missing {{novig_internal_link}} placeholder'']\<rparr>"
  using validate_total [of "[]" "[]" "[]" None]
  unfolding validate_def ex_empty_run and_then_Inr
  by (simp add: final_score_eq(1) irt_10 PASS_THRESHOLD_def)

text \<open>
  C4. The issues of the result are the issues of the six checks in the order title, meta
  description, H2 headings, word count, keywords, link placeholder. Each check is run on
  the initial locals, so that its \<open>total_points\<close> and \<open>max_points\<close> are the points it
  awards and the points it can award. A check reports at most one issue, and reports one
  whenever it does not award all its points. For keyword lists of at most \<open>2 ^ 53\<close>
  entries a check that awards all its points reports no issue, so that each check reports
  exactly one issue or none according to its points, and the list is empty exactly when
  every check awards all its points.
\<close>

theorem validate_issues:
  "\<exists>w k r cs. check_word_count body init = Inr w
     \<and> check_keywords keywords body init = Inr k
     \<and> validate title meta_description body keywords = Inr r
     \<and> cs = [check_title title init, check_meta meta_description init, check_h2 body init,
             w, k, check_link body init]
     \<and> issues r = concat (map l_issues cs)
     \<and> (\<forall>c \<in> set cs. length (l_issues c) \<le> 1
           \<and> (l_issues c = [] \<longrightarrow> total_points c = max_points c))
     \<and> (length (keyword_list keywords) \<le> 2 ^ 53 \<longrightarrow>
           (\<forall>c \<in> set cs. length (l_issues c) = (if total_points c = max_points c then 0 else 1))
           \<and> (issues r = [] \<longleftrightarrow> (\<forall>c \<in> set cs. total_points c = max_points c)))"
proof (rule validate_outcome[of body "keywords" title meta_description], goal_cases)
  case (1 w k st)
  let ?ok = "\<lambda>c. length (l_issues c) = (if total_points c = max_points c then 0 else 1)"
  let ?weak = "\<lambda>c. length (l_issues c) \<le> 1
     \<and> (l_issues c = [] \<longrightarrow> total_points c = max_points c)"
  let ?cs = "[check_title title init, check_meta meta_description init, check_h2 body init,
             w, k, check_link body init]"
  let ?r = "\<lparr>passed = (PASS_THRESHOLD \<le> int_ratio_times (total_points st) 100 100),
           score = int_ratio_times (total_points st) 100 100, issues = l_issues st\<rparr>"
  have weaken: "?weak c" if "?ok c" for c
    using that by (cases "total_points c = max_points c") auto
  have t: "?ok (check_title title init)"
    unfolding check_title_init(1) by (rule check_title_init(4))
  have m: "?ok (check_meta meta_description init)"
    unfolding check_meta_init(1) by (rule check_meta_init(4))
  have h: "?ok (check_h2 body init)"
    unfolding check_h2_init(1) by (rule check_h2_init(4))
  have l: "?ok (check_link body init)"
    unfolding check_link_init(1) by (rule check_link_init(4))
  have kw: "?weak k" using 1(11) 1(12) by simp
  have weak: "\<forall>c \<in> set ?cs. ?weak c"
    using weaken[OF t] weaken[OF m] weaken[OF h] weaken[OF 1(9)] kw weaken[OF l]
    by (simp only: list.set ball_simps insert_iff empty_iff simp_thms) blast
  have iss: "issues ?r = concat (map l_issues ?cs)" unfolding 1(8) by simp
  have bounded: "(\<forall>c \<in> set ?cs. ?ok c)
      \<and> (issues ?r = [] \<longleftrightarrow> (\<forall>c \<in> set ?cs. total_points c = max_points c))"
    if b: "length (keyword_list keywords) \<le> 2 ^ 53"
  proof -
    have each: "\<forall>c \<in> set ?cs. ?ok c"
      using t m h l 1(9) 1(10)[OF b]
      by (simp only: list.set ball_simps insert_iff empty_iff simp_thms)
    from issue_lists_empty_iff[OF each] iss each show ?thesis by simp
  qed
  show ?case
  proof (intro exI conjI impI)
    show "check_word_count body init = Inr w" by (rule 1(1))
    show "check_keywords keywords body init = Inr k" by (rule 1(2))
    show "validate title meta_description body keywords = Inr ?r" by (rule 1(4))
    show "?cs = ?cs" by (rule refl)
    show "issues ?r = concat (map l_issues ?cs)" by (rule iss)
    show "\<forall>c \<in> set ?cs. ?weak c" by (rule weak)
    show "\<forall>c \<in> set ?cs. ?ok c" if "length (keyword_list keywords) \<le> 2 ^ 53"
      using bounded[OF that] by (rule conjunct1)
    show "issues ?r = [] \<longleftrightarrow> (\<forall>c \<in> set ?cs. total_points c = max_points c)"
      if "length (keyword_list keywords) \<le> 2 ^ 53"
      using bounded[OF that] by (rule conjunct2)
  qed
qed

theorem validate_issues_witness:
  "length (keyword_list (Some [''a'', ''b'', ''c'', ''d'', ''e''])) \<le> 2 ^ 53
   \<and> (\<exists>w k r cs. check_word_count ''a b'' init = Inr w
     \<and> check_keywords (Some [''a'', ''b'', ''c'', ''d'', ''e'']) ''a b'' init = Inr k
     \<and> validate ''NBA Best Bets for Tonight: Top'' ''x'' ''a b''
          (Some [''a'', ''b'', ''c'', ''d'', ''e'']) = Inr r
     \<and> cs = [check_title ''NBA Best Bets for Tonight: Top'' init, check_meta ''x'' init,
             check_h2 ''a b'' init, w, k, check_link ''a b'' init]
     \<and> issues r = concat (map l_issues cs)
     \<and> (\<forall>c \<in> set cs. length (l_issues c) = (if total_points c = max_points c then 0 else 1))
     \<and> (issues r = [] \<longleftrightarrow> (\<forall>c \<in> set cs. total_points c = max_points c)))"
proof -
  have h: "length (keyword_list (Some [''a'', ''b'', ''c'', ''d'', ''e''])) \<le> 2 ^ 53"
    by (simp add: keyword_list_def)
  from validate_issues [of "''a b''" "Some [''a'', ''b'', ''c'', ''d'', ''e'']"
      "''NBA Best Bets for Tonight: Top''" "''x''"]
  obtain w k r cs where o: "check_word_count ''a b'' init = Inr w"
    "check_keywords (Some [''a'', ''b'', ''c'', ''d'', ''e'']) ''a b'' init = Inr k"
    "validate ''NBA Best Bets for Tonight: Top'' ''x'' ''a b''
          (Some [''a'', ''b'', ''c'', ''d'', ''e'']) = Inr r"
    "cs = [check_title ''NBA Best Bets for Tonight: Top'' init, check_meta ''x'' init,
             check_h2 ''a b'' init, w, k, check_link ''a b'' init]"
    "issues r = concat (map l_issues cs)"
    "length (keyword_list (Some [''a'', ''b'', ''c'', ''d'', ''e''])) \<le> 2 ^ 53 \<longrightarrow>
           (\<forall>c \<in> set cs. length (l_issues c) = (if total_points c = max_points c then 0 else 1))
           \<and> (issues r = [] \<longleftrightarrow> (\<forall>c \<in> set cs. total_points c = max_points c))"
    by (elim exE conjE)
  from o(6) h have
    "(\<forall>c \<in> set cs. length (l_issues c) = (if total_points c = max_points c then 0 else 1))
           \<and> (issues r = [] \<longleftrightarrow> (\<forall>c \<in> set cs. total_points c = max_points c))"
    by (rule mp)
  with h o(1-5) show ?thesis by blast
qed

text \<open>
  C9. The points of the word-count check do not decrease when the word count grows: a
  body with at least as many words earns at least as many points. The check never awards
  more than 20 points, and awards 20 exactly from 500 words on.
\<close>

theorem word_count_points_monotone:
  assumes "length (split body1) \<le> length (split body2)"
  shows "\<exists>s1 s2. check_word_count body1 st = Inr s1 \<and> check_word_count body2 st = Inr s2
     \<and> total_points s1 \<le> total_points s2 \<and> total_points s2 \<le> total_points st + 20
     \<and> (total_points s2 = total_points st + 20 \<longleftrightarrow> 500 \<le> length (split body2))"
proof -
  let ?w1 = "int (length (split body1))" and ?w2 = "int (length (split body2))"
  have m: "int_ratio_times ?w1 MIN_WORD_COUNT 15 \<le> int_ratio_times ?w2 MIN_WORD_COUNT 15"
    using assms by (intro int_ratio_times_mono) (simp_all add: MIN_WORD_COUNT_def)
  show ?thesis
    unfolding check_word_count_eq using m assms
    by (simp add: block_defs MIN_WORD_COUNT_def min_le_iff_disj min_def)
qed

theorem word_count_points_monotone_witness:
  "length (split ''a'') \<le> length (split ''a b'')
   \<and> (\<exists>s1 s2. check_word_count ''a'' init = Inr s1 \<and> check_word_count ''a b'' init = Inr s2
     \<and> total_points s1 \<le> total_points s2 \<and> total_points s2 \<le> total_points init + 20
     \<and> (total_points s2 = total_points init + 20 \<longleftrightarrow> 500 \<le> length (split ''a b'')))"
proof -
  have h: "length (split ''a'') \<le> length (split ''a b'')"
    by (simp add: split_def is_space_def)
  show ?thesis by (rule conjI[OF h word_count_points_monotone[OF h]])
qed

end
